theory Spec2Isabelle
  imports Main "HOL-Library.Word" "HOL-Library.List_Lexorder" "HOL-Library.Sublist"
begin

unbundle bit_operations_syntax

section \<open>Timestamps, ranges and key intervals\<close>

text \<open>
  A Go \<^verbatim>\<open>[]byte\<close> is a list of 8-bit words; lists are compared lexicographically
  (the order of \<^verbatim>\<open>memcmp\<close>, a proper prefix being smaller), which is how the engine
  compares BLOB keys. A \<^verbatim>\<open>Timestamp\<close> is a Go \<^verbatim>\<open>int64\<close>: a 64-bit word whose
  arithmetic wraps and whose order is the signed one (\<open>\<le>s\<close>, \<open><s\<close>).
\<close>

type_synonym byte = "8 word"
type_synonym Timestamp = "64 word"

record DocumentLogEntry =
  TS :: Timestamp
  ID :: string
  TableID :: string
  Value :: "string option"
  Deleted :: bool
  PrevTS :: "Timestamp option"

text \<open>\<^verbatim>\<open>Value\<close> is a \<^verbatim>\<open>json.RawMessage\<close>; \<open>None\<close> is the nil slice.\<close>

definition IsDeleted :: "DocumentLogEntry \<Rightarrow> bool" where
  "IsDeleted d \<longleftrightarrow> Deleted d \<or> Value d = None"

text \<open>
  The fields \<^verbatim>\<open>TS\<close>, \<^verbatim>\<open>Deleted\<close> and \<^verbatim>\<open>TableID\<close> of an index entry carry
  the prefix \<open>idx_\<close>, since a record field is a constant of the theory.
\<close>

record IndexEntry =
  IndexID :: string
  idx_TS :: Timestamp
  Key :: "byte list"
  idx_Deleted :: bool
  idx_TableID :: string
  DocumentID :: string

record TimestampRange =
  Start :: Timestamp
  End :: Timestamp

definition MaxTimestamp :: Timestamp where
  "MaxTimestamp = 2 ^ 63 - 1"

definition AllTime :: TimestampRange where
  "AllTime = \<lparr>Start = 0, End = MaxTimestamp\<rparr>"

definition AtOrBefore :: "Timestamp \<Rightarrow> TimestampRange" where
  "AtOrBefore ts = \<lparr>Start = 0, End = ts\<rparr>"

definition After :: "Timestamp \<Rightarrow> TimestampRange" where
  "After ts = \<lparr>Start = ts + 1, End = MaxTimestamp\<rparr>"

definition Contains :: "TimestampRange \<Rightarrow> Timestamp \<Rightarrow> bool" where
  "Contains r ts \<longleftrightarrow> Start r \<le>s ts \<and> ts \<le>s End r"

text \<open>
  An interval of keys; \<open>None\<close> is the nil slice (unbounded). The fields are
  \<^verbatim>\<open>Start\<close> and \<^verbatim>\<open>End\<close> in the source.
\<close>

record Interval =
  StartKey :: "byte list option"
  EndKey :: "byte list option"

definition All :: Interval where
  "All = \<lparr>StartKey = None, EndKey = None\<rparr>"

text \<open>
  The loop of \<^verbatim>\<open>Prefix\<close>, \<^verbatim>\<open>for i := len(end) - 1; i >= 0; i--\<close>, with the
  counter \<open>n = i + 1\<close>: \<open>Some\<close> is the early return of \<^verbatim>\<open>end[:i+1]\<close> after
  \<^verbatim>\<open>end[i]++\<close>, \<open>None\<close> is falling out of the loop.
\<close>

fun Prefix_loop :: "byte list \<Rightarrow> nat \<Rightarrow> byte list option" where
  "Prefix_loop e 0 = None"
| "Prefix_loop e (Suc i) =
     (if e ! i < 0xFF then Some (take (Suc i) (e[i := e ! i + 1]))
      else Prefix_loop e i)"

definition Prefix :: "byte list \<Rightarrow> Interval" where
  "Prefix p =
     (if length p = 0 then All
      else \<lparr>StartKey = Some p, EndKey = Prefix_loop p (length p)\<rparr>)"

text \<open>
  Membership of a key in an interval, as the index scan tests it:
  \<^verbatim>\<open>key >= ? AND (? IS NULL OR key < ?)\<close>, where a nil start is bound as the
  empty key.
\<close>

definition start_bound :: "Interval \<Rightarrow> byte list" where
  "start_bound iv = (case StartKey iv of None \<Rightarrow> [] | Some s \<Rightarrow> s)"

definition key_in_range :: "byte list \<Rightarrow> byte list option \<Rightarrow> byte list \<Rightarrow> bool" where
  "key_in_range startKey endKey k \<longleftrightarrow>
     startKey \<le> k \<and> (case endKey of None \<Rightarrow> True | Some e \<Rightarrow> k < e)"

definition in_interval :: "Interval \<Rightarrow> byte list \<Rightarrow> bool" where
  "in_interval iv k \<longleftrightarrow> key_in_range (start_bound iv) (EndKey iv) k"

text \<open>
  The successor of a prefix by structural recursion: the characterisation that the
  loop is proved to compute.
\<close>

fun succ_key :: "byte list \<Rightarrow> byte list option" where
  "succ_key [] = None"
| "succ_key (x # xs) =
     (case succ_key xs of
        Some ys \<Rightarrow> Some (x # ys)
      | None \<Rightarrow> if x < 0xFF then Some [x + 1] else None)"

type_synonym Order = int

definition Asc :: Order where "Asc = 0"
definition Desc :: Order where "Desc = 1"

definition Order_String :: "Order \<Rightarrow> string" where
  "Order_String ord = (if ord = Desc then ''DESC'' else ''ASC'')"

record IndexResult =
  res_Key :: "byte list option"
  Document :: "DocumentLogEntry option"

section \<open>Index generator\<close>

text \<open>
  \<^verbatim>\<open>binary.BigEndian.PutUint16\<close> on a two-byte buffer, and the priority key: the
  Go \<^verbatim>\<open>int\<close> argument (64 bits) is truncated by \<^verbatim>\<open>uint16(priority)\<close>.
\<close>

definition PutUint16 :: "16 word \<Rightarrow> byte list" where
  "PutUint16 v = [ucast (drop_bit 8 v), ucast v]"

definition PriorityIndexKey :: "64 word \<Rightarrow> byte list" where
  "PriorityIndexKey priority = PutUint16 (ucast priority) @ [0]"

section \<open>The embedded engine and the persisted tables\<close>

text \<open>
  The three tables of \<^verbatim>\<open>Schema\<close>, rows in insertion order. A row of
  \<^verbatim>\<open>documents\<close> holds the columns (id, ts, table_id, json_value, deleted, prev_ts)
  that \<^verbatim>\<open>Write\<close> binds from a \<^verbatim>\<open>DocumentLogEntry\<close> and that the readers scan
  back into one, so the row is that record: a NULL json_value is \<open>Value = None\<close>, the
  integer \<^verbatim>\<open>deleted\<close> (0 or 1) is the flag. Likewise for \<^verbatim>\<open>indexes\<close>;
  \<^verbatim>\<open>persistence_globals\<close> is a list of (key, json_value) pairs.
\<close>

record database =
  documents :: "DocumentLogEntry list"
  indexes :: "IndexEntry list"
  persistence_globals :: "(string \<times> string) list"

text \<open>
  Every call into the engine whose error the code checks has an outcome here:
  \<open>True\<close> when the call succeeds (\<open>exec_ok\<close> is a single \<^verbatim>\<open>SetGlobalQuery\<close>
  statement, \<open>query_ok\<close> a read). Failures of single statements that come from the
  data (a violated primary key) are computed by the model, not taken from here.
\<close>

record engine =
  mkdir_ok :: bool
  open_ok :: bool
  schema_ok :: bool
  exec_ok :: bool
  begin_ok :: bool
  prepare_doc_ok :: bool
  prepare_idx_ok :: bool
  commit_ok :: bool
  query_ok :: bool

definition healthy :: engine where
  "healthy = \<lparr>mkdir_ok = True, open_ok = True, schema_ok = True, exec_ok = True,
              begin_ok = True, prepare_doc_ok = True, prepare_idx_ok = True,
              commit_ok = True, query_ok = True\<rparr>"

text \<open>
  An error built by \<^verbatim>\<open>fmt.Errorf("...: %w", err)\<close>: the message before the colon
  and the wrapped cause.
\<close>

datatype engine_error = ConstraintViolation | EngineFault

datatype error = Errorf string engine_error

definition SchemaVersion :: int where
  "SchemaVersion = 1"

definition GlobalSchemaVersion :: string where
  "GlobalSchemaVersion = ''schema_version''"

definition GlobalMaxRepeatableTS :: string where
  "GlobalMaxRepeatableTS = ''max_repeatable_ts''"

text \<open>\<^verbatim>\<open>SetGlobalQuery\<close>: INSERT OR REPLACE on the primary key \<^verbatim>\<open>key\<close>.\<close>

definition SetGlobalQuery :: "(string \<times> string) list \<Rightarrow> string \<Rightarrow> string \<Rightarrow> (string \<times> string) list" where
  "SetGlobalQuery rows k v = filter (\<lambda>r. fst r \<noteq> k) rows @ [(k, v)]"

definition GetGlobalQuery :: "(string \<times> string) list \<Rightarrow> string \<Rightarrow> string option" where
  "GetGlobalQuery rows k = map_of rows k"

text \<open>The primary keys, and the two INSERT statements.\<close>

definition doc_key :: "DocumentLogEntry \<Rightarrow> Timestamp \<times> string \<times> string" where
  "doc_key d = (TS d, TableID d, ID d)"

definition idx_key :: "IndexEntry \<Rightarrow> string \<times> byte list \<times> Timestamp" where
  "idx_key e = (IndexID e, Key e, idx_TS e)"

definition InsertDocumentQuery ::
  "DocumentLogEntry list \<Rightarrow> DocumentLogEntry \<Rightarrow> engine_error + DocumentLogEntry list" where
  "InsertDocumentQuery rows doc =
     (if doc_key doc \<in> set (map doc_key rows) then Inl ConstraintViolation
      else Inr (rows @ [doc]))"

definition InsertIndexQuery ::
  "IndexEntry list \<Rightarrow> IndexEntry \<Rightarrow> engine_error + IndexEntry list" where
  "InsertIndexQuery rows idx =
     (if idx_key idx \<in> set (map idx_key rows) then Inl ConstraintViolation
      else Inr (rows @ [idx]))"

section \<open>Opening a store\<close>

record SQLitePersistence =
  db :: database
  dbPath :: string
  fresh :: bool

text \<open>
  \<^verbatim>\<open>NewSQLitePersistence\<close>. The file system is the argument \<open>file\<close>: \<open>None\<close>
  when \<^verbatim>\<open>os.Stat\<close> reports that nothing exists at the path, otherwise the database
  stored there. \<^verbatim>\<open>json.Marshal(SchemaVersion)\<close> is the text \<^verbatim>\<open>1\<close>.
\<close>

definition Schema :: database where
  "Schema = \<lparr>documents = [], indexes = [], persistence_globals = []\<rparr>"

definition NewSQLitePersistence ::
  "engine \<Rightarrow> database option \<Rightarrow> string \<Rightarrow> error + SQLitePersistence" where
  "NewSQLitePersistence eng file path =
     (let is_fresh = (file = None) in
      if is_fresh \<and> \<not> mkdir_ok eng then Inl (Errorf ''creating database directory'' EngineFault)
      else if \<not> open_ok eng then Inl (Errorf ''opening database'' EngineFault)
      else (case file of
              None \<Rightarrow>
                if \<not> schema_ok eng then Inl (Errorf ''initializing schema'' EngineFault)
                else if \<not> exec_ok eng then Inl (Errorf ''setting schema version'' EngineFault)
                else Inr \<lparr>db = Schema\<lparr>persistence_globals :=
                                SetGlobalQuery (persistence_globals Schema) GlobalSchemaVersion ''1''\<rparr>,
                          dbPath = path, fresh = True\<rparr>
            | Some d \<Rightarrow> Inr \<lparr>db = d, dbPath = path, fresh = False\<rparr>))"

section \<open>The atomic writer\<close>

text \<open>
  The two loops of \<^verbatim>\<open>Write\<close> run on the rows of the open transaction; the first
  failing statement returns, and the deferred \<^verbatim>\<open>tx.Rollback()\<close> leaves the database
  as it was. Only \<^verbatim>\<open>tx.Commit()\<close> installs the new rows.
\<close>

fun insert_documents ::
  "DocumentLogEntry list \<Rightarrow> DocumentLogEntry list \<Rightarrow> error + DocumentLogEntry list" where
  "insert_documents rows [] = Inr rows"
| "insert_documents rows (doc # docs) =
     (case InsertDocumentQuery rows doc of
        Inl err \<Rightarrow> Inl (Errorf (''inserting document '' @ ID doc) err)
      | Inr rows' \<Rightarrow> insert_documents rows' docs)"

fun insert_indexes ::
  "IndexEntry list \<Rightarrow> IndexEntry list \<Rightarrow> error + IndexEntry list" where
  "insert_indexes rows [] = Inr rows"
| "insert_indexes rows (idx # idxs) =
     (case InsertIndexQuery rows idx of
        Inl err \<Rightarrow> Inl (Errorf ''inserting index entry'' err)
      | Inr rows' \<Rightarrow> insert_indexes rows' idxs)"

definition Write ::
  "engine \<Rightarrow> database \<Rightarrow> DocumentLogEntry list \<Rightarrow> IndexEntry list \<Rightarrow> error option \<times> database" where
  "Write eng d docs idxs =
     (if \<not> begin_ok eng then (Some (Errorf ''beginning transaction'' EngineFault), d)
      else if \<not> prepare_doc_ok eng then (Some (Errorf ''preparing document insert'' EngineFault), d)
      else (case insert_documents (documents d) docs of
              Inl err \<Rightarrow> (Some err, d)
            | Inr drows \<Rightarrow>
                (case (if length idxs > 0
                       then (if \<not> prepare_idx_ok eng then Inl (Errorf ''preparing index insert'' EngineFault)
                             else insert_indexes (indexes d) idxs)
                       else Inr (indexes d)) of
                   Inl err \<Rightarrow> (Some err, d)
                 | Inr irows \<Rightarrow>
                     if \<not> commit_ok eng then (Some (Errorf ''committing transaction'' EngineFault), d)
                     else (None, d\<lparr>documents := drows, indexes := irows\<rparr>))))"

definition WriteGlobal :: "engine \<Rightarrow> database \<Rightarrow> string \<Rightarrow> string \<Rightarrow> error option \<times> database" where
  "WriteGlobal eng d k v =
     (if \<not> exec_ok eng then (Some (Errorf (''writing global '' @ k) EngineFault), d)
      else (None, d\<lparr>persistence_globals := SetGlobalQuery (persistence_globals d) k v\<rparr>))"

definition GetGlobal :: "engine \<Rightarrow> database \<Rightarrow> string \<Rightarrow> error + string option" where
  "GetGlobal eng d k =
     (if \<not> query_ok eng then Inl (Errorf (''reading global '' @ k) EngineFault)
      else Inr (GetGlobalQuery (persistence_globals d) k))"

section \<open>The as-of reader\<close>

text \<open>
  \<^verbatim>\<open>ORDER BY ts DESC LIMIT 1\<close>: the row with the greatest timestamp, none for no
  rows. Among rows of one document the timestamps differ (the primary key); on a tie
  the earlier row of the list stands.
\<close>

fun order_by_ts_desc_limit_1 :: "DocumentLogEntry list \<Rightarrow> DocumentLogEntry option" where
  "order_by_ts_desc_limit_1 [] = None"
| "order_by_ts_desc_limit_1 (r # rs) =
     (case order_by_ts_desc_limit_1 rs of
        None \<Rightarrow> Some r
      | Some m \<Rightarrow> if TS r <s TS m then Some m else Some r)"

definition LatestDocumentQuery ::
  "database \<Rightarrow> string \<Rightarrow> string \<Rightarrow> DocumentLogEntry option" where
  "LatestDocumentQuery d table_id doc_id =
     order_by_ts_desc_limit_1
       (filter (\<lambda>r. TableID r = table_id \<and> ID r = doc_id \<and> \<not> Deleted r) (documents d))"

definition LatestDocumentAtTSQuery ::
  "database \<Rightarrow> string \<Rightarrow> string \<Rightarrow> Timestamp \<Rightarrow> DocumentLogEntry option" where
  "LatestDocumentAtTSQuery d table_id doc_id ts =
     order_by_ts_desc_limit_1
       (filter (\<lambda>r. TableID r = table_id \<and> ID r = doc_id \<and> TS r \<le>s ts) (documents d))"

text \<open>
  \<^verbatim>\<open>GetDocument\<close>: \<open>Inr None\<close> is the return \<^verbatim>\<open>nil, nil\<close>, both for
  \<^verbatim>\<open>sql.ErrNoRows\<close> and for a row whose \<^verbatim>\<open>Deleted\<close> flag is set.
\<close>

definition GetDocument ::
  "engine \<Rightarrow> database \<Rightarrow> string \<Rightarrow> string \<Rightarrow> Timestamp option \<Rightarrow> error + DocumentLogEntry option" where
  "GetDocument eng d tableID docID atTS =
     (if \<not> query_ok eng
      then Inl (Errorf (''querying document '' @ tableID @ ''/'' @ docID) EngineFault)
      else (case (case atTS of
                    Some t \<Rightarrow> LatestDocumentAtTSQuery d tableID docID t
                  | None \<Rightarrow> LatestDocumentQuery d tableID docID) of
              None \<Rightarrow> Inr None
            | Some doc \<Rightarrow> if Deleted doc then Inr None else Inr (Some doc)))"

text \<open>
  \<^verbatim>\<open>DocumentsByTableQuery\<close> and \<^verbatim>\<open>LoadDocuments\<close>; the direction is the text that
  \<^verbatim>\<open>Order.String\<close> puts into the query. The query names no order for rows of equal
  \<^verbatim>\<open>ts\<close>; the engine reads them from the index
  \<^verbatim>\<open>idx_documents_by_table (table_id, ts DESC)\<close>, in which rows of equal \<^verbatim>\<open>ts\<close> stand
  in the order of their insertion: so they come for \<^verbatim>\<open>DESC\<close>, and in the reverse
  order for \<^verbatim>\<open>ASC\<close>, which reads the index backwards.
\<close>

definition DocumentsByTableQuery ::
  "database \<Rightarrow> string \<Rightarrow> string \<Rightarrow> Timestamp \<Rightarrow> Timestamp \<Rightarrow> DocumentLogEntry list" where
  "DocumentsByTableQuery d dir table_id lo hi =
     (let rows = sort_key (\<lambda>r. sint (TS r))
                   (rev (filter (\<lambda>r. TableID r = table_id \<and> lo \<le>s TS r \<and> TS r \<le>s hi)
                          (documents d)))
      in if dir = ''DESC'' then rev rows else rows)"

definition LoadDocuments ::
  "engine \<Rightarrow> database \<Rightarrow> string \<Rightarrow> TimestampRange \<Rightarrow> Order \<Rightarrow> error + DocumentLogEntry list" where
  "LoadDocuments eng d tableID tsRange ord =
     (if \<not> query_ok eng then Inl (Errorf ''querying documents'' EngineFault)
      else Inr (DocumentsByTableQuery d (Order_String ord) tableID (Start tsRange) (End tsRange)))"

text \<open>\<^verbatim>\<open>SELECT MAX(ts)\<close>: NULL (\<open>None\<close>) over no rows.\<close>

fun MAX_ts :: "Timestamp list \<Rightarrow> Timestamp option" where
  "MAX_ts [] = None"
| "MAX_ts (t # ts) =
     (case MAX_ts ts of None \<Rightarrow> Some t | Some m \<Rightarrow> if t <s m then Some m else Some t)"

text \<open>
  The subquery shared by \<^verbatim>\<open>IndexScanQuery\<close> and \<^verbatim>\<open>IndexGetQuery\<close>:
  \<^verbatim>\<open>SELECT MAX(ts) FROM documents WHERE table_id = i.table_id AND id = i.document_id
  AND ts <= ? AND deleted = 0\<close>.
\<close>

definition max_live_ts :: "database \<Rightarrow> IndexEntry \<Rightarrow> Timestamp \<Rightarrow> Timestamp option" where
  "max_live_ts d i read_ts =
     MAX_ts (map TS (filter (\<lambda>r. TableID r = idx_TableID i \<and> ID r = DocumentID i
                                 \<and> TS r \<le>s read_ts \<and> \<not> Deleted r) (documents d)))"

text \<open>
  The common table expression \<^verbatim>\<open>latest_index\<close> of \<^verbatim>\<open>IndexScanQuery\<close>: the
  index rows of the key range visible at the read timestamp, each with its
  \<^verbatim>\<open>ROW_NUMBER() OVER (PARTITION BY index_id, key ORDER BY ts DESC)\<close>, which is one
  more than the number of rows of its partition with a greater timestamp.
\<close>

definition row_number :: "IndexEntry list \<Rightarrow> IndexEntry \<Rightarrow> nat" where
  "row_number rows e =
     Suc (length (filter (\<lambda>e'. IndexID e' = IndexID e \<and> Key e' = Key e \<and> idx_TS e <s idx_TS e') rows))"

definition latest_index ::
  "database \<Rightarrow> string \<Rightarrow> byte list \<Rightarrow> byte list option \<Rightarrow> Timestamp \<Rightarrow> (IndexEntry \<times> nat) list" where
  "latest_index d index_id startKey endKey read_ts =
     (let rows = filter (\<lambda>e. IndexID e = index_id \<and> key_in_range startKey endKey (Key e)
                              \<and> idx_TS e \<le>s read_ts) (indexes d)
      in map (\<lambda>e. (e, row_number rows e)) rows)"

text \<open>
  The join and the WHERE clause, for one row \<open>i\<close> of \<^verbatim>\<open>latest_index\<close>: the
  document rows \<open>d\<close> that the query pairs with it.
\<close>

definition join_documents :: "database \<Rightarrow> Timestamp \<Rightarrow> IndexEntry \<Rightarrow> DocumentLogEntry list" where
  "join_documents d read_ts i =
     filter (\<lambda>r. TableID r = idx_TableID i \<and> ID r = DocumentID i
                 \<and> \<not> idx_Deleted i \<and> \<not> Deleted r
                 \<and> Some (TS r) = max_live_ts d i read_ts) (documents d)"

text \<open>\<^verbatim>\<open>LIMIT ?\<close>: a negative limit is no limit.\<close>

definition LIMIT :: "int \<Rightarrow> 'a list \<Rightarrow> 'a list" where
  "LIMIT n rows = (if n < 0 then rows else take (nat n) rows)"

text \<open>
  \<^verbatim>\<open>IndexScanQuery\<close>: the joined rows that pass the WHERE clause, each with the
  key \<^verbatim>\<open>i.key\<close> it is ordered by, sorted and limited; the SELECT list keeps the
  six columns of the document and drops the key.
\<close>

definition IndexScanRows ::
  "database \<Rightarrow> string \<Rightarrow> string \<Rightarrow> byte list \<Rightarrow> byte list option \<Rightarrow> Timestamp \<Rightarrow> int
     \<Rightarrow> (byte list \<times> DocumentLogEntry) list" where
  "IndexScanRows d dir index_id startKey endKey read_ts limit =
     (let selected = concat (map (\<lambda>(i, rn). map (\<lambda>r. (Key i, r)) (join_documents d read_ts i))
                               (filter (\<lambda>(i, rn). rn = 1)
                                  (latest_index d index_id startKey endKey read_ts)));
          ordered = sort_key fst selected
      in LIMIT limit (if dir = ''DESC'' then rev ordered else ordered))"

definition IndexScanQuery ::
  "database \<Rightarrow> string \<Rightarrow> string \<Rightarrow> byte list \<Rightarrow> byte list option \<Rightarrow> Timestamp \<Rightarrow> int
     \<Rightarrow> DocumentLogEntry list" where
  "IndexScanQuery d dir index_id startKey endKey read_ts limit =
     map snd (IndexScanRows d dir index_id startKey endKey read_ts limit)"

text \<open>
  \<^verbatim>\<open>IndexScan\<close>; \<open>now\<close> is the value of \<^verbatim>\<open>Now()\<close>. Each row becomes
  \<^verbatim>\<open>IndexResult{Document: &doc}\<close>.
\<close>

definition IndexScan ::
  "engine \<Rightarrow> Timestamp \<Rightarrow> database \<Rightarrow> string \<Rightarrow> Interval \<Rightarrow> Timestamp \<Rightarrow> Order \<Rightarrow> int
     \<Rightarrow> error + IndexResult list" where
  "IndexScan eng now d indexID interval readTS ord limit =
     (let readTS' = (if readTS = 0 then now else readTS);
          endKey = EndKey interval;
          startKey = start_bound interval
      in if \<not> query_ok eng then Inl (Errorf (''scanning index '' @ indexID) EngineFault)
         else Inr (map (\<lambda>doc. \<lparr>res_Key = None, Document = Some doc\<rparr>)
                     (IndexScanQuery d (Order_String ord) indexID startKey endKey readTS' limit)))"

text \<open>
  \<^verbatim>\<open>IndexGetQuery\<close>: the latest index row of the exact key
  (\<^verbatim>\<open>ORDER BY ts DESC LIMIT 1\<close>), joined as above, \<^verbatim>\<open>LIMIT 1\<close>.
\<close>

fun latest_entry :: "IndexEntry list \<Rightarrow> IndexEntry option" where
  "latest_entry [] = None"
| "latest_entry (e # es) =
     (case latest_entry es of
        None \<Rightarrow> Some e
      | Some m \<Rightarrow> if idx_TS e <s idx_TS m then Some m else Some e)"

definition IndexGetQuery ::
  "database \<Rightarrow> string \<Rightarrow> byte list \<Rightarrow> Timestamp \<Rightarrow> DocumentLogEntry option" where
  "IndexGetQuery d index_id k read_ts =
     (case latest_entry (filter (\<lambda>e. IndexID e = index_id \<and> Key e = k \<and> idx_TS e \<le>s read_ts)
                           (indexes d)) of
        None \<Rightarrow> None
      | Some i \<Rightarrow> (case join_documents d read_ts i of [] \<Rightarrow> None | r # rs \<Rightarrow> Some r))"

definition IndexGet ::
  "engine \<Rightarrow> Timestamp \<Rightarrow> database \<Rightarrow> string \<Rightarrow> byte list \<Rightarrow> Timestamp
     \<Rightarrow> error + DocumentLogEntry option" where
  "IndexGet eng now d indexID k readTS =
     (let readTS' = (if readTS = 0 then now else readTS)
      in if \<not> query_ok eng then Inl (Errorf (''index get '' @ indexID) EngineFault)
         else Inr (IndexGetQuery d indexID k readTS'))"

text \<open>\<^verbatim>\<open>MaxTimestampQuery\<close> and \<^verbatim>\<open>DocumentCountQuery\<close>, behind the reader's
  \<^verbatim>\<open>MaxTimestamp\<close> and \<^verbatim>\<open>DocumentCount\<close>.\<close>

definition reader_MaxTimestamp :: "engine \<Rightarrow> database \<Rightarrow> error + Timestamp" where
  "reader_MaxTimestamp eng d =
     (if \<not> query_ok eng then Inl (Errorf ''querying max timestamp'' EngineFault)
      else Inr (case MAX_ts (map TS (documents d)) of None \<Rightarrow> 0 | Some m \<Rightarrow> m))"

definition DocumentCount :: "engine \<Rightarrow> database \<Rightarrow> string \<Rightarrow> error + nat" where
  "DocumentCount eng d tableID =
     (if \<not> query_ok eng then Inl (Errorf (''counting documents in '' @ tableID) EngineFault)
      else Inr (length (remdups (map ID
                  (filter (\<lambda>r. TableID r = tableID \<and> \<not> Deleted r) (documents d))))))"

section \<open>The point read in the words of the specification\<close>

text \<open>
  The point read in the specification's words: among the versions of the document
  with a timestamp at or before \<open>t\<close> the one with the greatest timestamp, and nothing
  when there is none or when it is a tombstone (deleted, or without a value).
\<close>

definition spec_get_document ::
  "database \<Rightarrow> string \<Rightarrow> string \<Rightarrow> Timestamp \<Rightarrow> DocumentLogEntry option" where
  "spec_get_document d table_id doc_id t =
     (case LatestDocumentAtTSQuery d table_id doc_id t of
        None \<Rightarrow> None
      | Some r \<Rightarrow> if IsDeleted r then None else Some r)"

section \<open>Example stores\<close>

text \<open>The key \<^verbatim>\<open>"open\x00"\<close> of the status index.\<close>

definition ex_open_key :: "byte list" where
  "ex_open_key = [0x6F, 0x70, 0x65, 0x6E, 0x00]"

definition ex_v100 :: DocumentLogEntry where
  "ex_v100 = \<lparr>TS = 100, ID = ''bd-1'', TableID = ''issues'', Value = Some ''open'',
              Deleted = False, PrevTS = None\<rparr>"

definition ex_tomb200 :: DocumentLogEntry where
  "ex_tomb200 = \<lparr>TS = 200, ID = ''bd-1'', TableID = ''issues'', Value = None,
                 Deleted = True, PrevTS = Some 100\<rparr>"

definition ex_idx100 :: IndexEntry where
  "ex_idx100 = \<lparr>IndexID = ''issues_by_status'', idx_TS = 100, Key = ex_open_key,
                idx_Deleted = False, idx_TableID = ''issues'', DocumentID = ''bd-1''\<rparr>"

text \<open>
  A fresh store, the store after the issue is created at 100, and the store after
  \<^verbatim>\<open>DeleteIssue\<close> has written its tombstone at 200 (with no index entries).
\<close>

definition ex_db0 :: database where
  "ex_db0 = \<lparr>documents = [], indexes = [], persistence_globals = [(''schema_version'', ''1'')]\<rparr>"

definition ex_db1 :: database where
  "ex_db1 = ex_db0\<lparr>documents := [ex_v100], indexes := [ex_idx100]\<rparr>"

definition ex_db2 :: database where
  "ex_db2 = ex_db0\<lparr>documents := [ex_v100, ex_tomb200], indexes := [ex_idx100]\<rparr>"

text \<open>
  A batch for the store \<open>ex_db1\<close>: a new issue at 300 with its index entry, and a
  document whose primary key (100, issues, bd-1) is already stored.
\<close>

definition ex_v300 :: DocumentLogEntry where
  "ex_v300 = \<lparr>TS = 300, ID = ''bd-2'', TableID = ''issues'', Value = Some ''open'',
              Deleted = False, PrevTS = None\<rparr>"

definition ex_dup100 :: DocumentLogEntry where
  "ex_dup100 = \<lparr>TS = 100, ID = ''bd-1'', TableID = ''issues'', Value = Some ''closed'',
                Deleted = False, PrevTS = None\<rparr>"

definition ex_idx300 :: IndexEntry where
  "ex_idx300 = \<lparr>IndexID = ''issues_by_status'', idx_TS = 300, Key = ex_open_key,
                idx_Deleted = False, idx_TableID = ''issues'', DocumentID = ''bd-2''\<rparr>"

text \<open>
  A version without a value whose \<^verbatim>\<open>Deleted\<close> flag is not set, and a store that
  holds only this version.
\<close>

definition ex_null400 :: DocumentLogEntry where
  "ex_null400 = \<lparr>TS = 400, ID = ''bd-3'', TableID = ''issues'', Value = None,
                 Deleted = False, PrevTS = None\<rparr>"

definition ex_db3 :: database where
  "ex_db3 = ex_db0\<lparr>documents := [ex_null400]\<rparr>"

text \<open>A store whose \<^verbatim>\<open>schema_version\<close> is one greater than \<^verbatim>\<open>SchemaVersion\<close>.\<close>

definition ex_db_v2 :: database where
  "ex_db_v2 = ex_db1\<lparr>persistence_globals := [(''schema_version'', ''2'')]\<rparr>"

section \<open>The priority key\<close>

lemma take_bit_16_sint: "take_bit 16 (sint (p::64 word)) = take_bit 16 (uint p)"
  by (simp add: sint_uint take_bit_signed_take_bit)

lemma ucast_16_eq_iff:
  "(ucast (p::64 word) = (ucast (q::64 word) :: 16 word)) \<longleftrightarrow> sint p mod 2^16 = sint q mod 2^16"
proof -
  have "(ucast p = (ucast q :: 16 word)) \<longleftrightarrow> uint (ucast p :: 16 word) = uint (ucast q :: 16 word)"
    by (simp add: word_uint_eq_iff)
  also have "\<dots> \<longleftrightarrow> take_bit 16 (uint p) = take_bit 16 (uint q)"
    by (simp add: unsigned_ucast_eq)
  also have "\<dots> \<longleftrightarrow> take_bit 16 (sint p) = take_bit 16 (sint q)"
    by (simp only: take_bit_16_sint)
  finally show ?thesis by (simp add: take_bit_eq_mod)
qed

lemma hi_byte: "(ucast (drop_bit 8 (ucast (p::64 word) :: 16 word)) :: byte) = word_of_int (sint p mod 2^16 div 2^8)"
proof -
  have e: "sint p mod 2^16 div 2^8 = drop_bit 8 (take_bit 16 (sint p))"
    by (simp add: take_bit_eq_mod drop_bit_eq_div)
  show ?thesis unfolding e
    by (rule bit_word_eqI) (auto simp add: bit_simps bit_sint_iff)
qed

lemma lo_byte: "(ucast (ucast (p::64 word) :: 16 word) :: byte) = word_of_int (sint p mod 2^8)"
proof -
  have e: "sint p mod 2^8 = take_bit 8 (sint p)"
    by (simp add: take_bit_eq_mod)
  show ?thesis unfolding e
    by (rule bit_word_eqI) (auto simp add: bit_simps bit_sint_iff)
qed

lemma PutUint16_inj: "PutUint16 v = PutUint16 w \<longleftrightarrow> v = w"
proof
  assume a: "PutUint16 v = PutUint16 w"
  then have h: "(ucast (drop_bit 8 v) :: byte) = ucast (drop_bit 8 w)"
    and l: "(ucast v :: byte) = ucast w"
    by (simp_all add: PutUint16_def)
  show "v = w"
  proof (rule bit_word_eqI)
    fix n assume "n < LENGTH(16)"
    then have n: "n < 16" by simp
    show "bit v n = bit w n"
    proof (cases "n < 8")
      case True
      have "bit (ucast v :: byte) n = bit (ucast w :: byte) n" using l by simp
      then show ?thesis using True by (simp add: bit_ucast_iff)
    next
      case False
      define m where "m = n - 8"
      have m: "n = 8 + m" "m < 8" using False n by (simp_all add: m_def)
      have "bit (ucast (drop_bit 8 v) :: byte) m = bit (ucast (drop_bit 8 w) :: byte) m"
        using h by simp
      then show ?thesis using m by (simp add: bit_ucast_iff bit_drop_bit_eq)
    qed
  qed
qed simp

lemma PriorityIndexKey_eq_iff:
  "PriorityIndexKey p = PriorityIndexKey q \<longleftrightarrow> sint p mod 2^16 = sint q mod 2^16"
  by (simp add: PriorityIndexKey_def PutUint16_inj ucast_16_eq_iff)

lemma PriorityIndexKey_bytes:
  "PriorityIndexKey p = [word_of_int (sint p mod 2^16 div 2^8), word_of_int (sint p mod 2^8), 0]"
  by (simp only: PriorityIndexKey_def PutUint16_def hi_byte lo_byte append.simps)

text \<open>
  Claim C10. \<^verbatim>\<open>PriorityIndexKey\<close> encodes only the low 16 bits of its argument: two
  priorities have the same key exactly when they are congruent modulo \<open>2^16\<close>; the key
  is the two bytes of that residue, high byte first, followed by the sentinel \<open>0\<close>; the
  encoding is injective on the priorities from 0 to 65535; 0 and 65536 collide, and so
  do \<open>-1\<close> and 65535.
\<close>

theorem PriorityIndexKey_low_16_bits:
  "(PriorityIndexKey p = PriorityIndexKey q \<longleftrightarrow> sint p mod 2^16 = sint q mod 2^16)
   \<and> PriorityIndexKey p = [word_of_int (sint p mod 2^16 div 2^8), word_of_int (sint p mod 2^8), 0]
   \<and> (0 \<le> sint p \<and> sint p \<le> 65535 \<and> 0 \<le> sint q \<and> sint q \<le> 65535
        \<and> PriorityIndexKey p = PriorityIndexKey q \<longrightarrow> p = q)
   \<and> PriorityIndexKey 0 = PriorityIndexKey 65536
   \<and> PriorityIndexKey (- 1) = PriorityIndexKey 65535"
proof -
  have inj: "p = q" if "0 \<le> sint p" "sint p \<le> 65535" "0 \<le> sint q" "sint q \<le> 65535"
    "PriorityIndexKey p = PriorityIndexKey q"
  proof -
    have "sint p mod 2^16 = sint q mod 2^16" using that(5) by (simp only: PriorityIndexKey_eq_iff)
    then have "sint p = sint q" using that(1-4) by simp
    then show ?thesis by (rule signed_word_eqI)
  qed
  have c1: "PriorityIndexKey 0 = PriorityIndexKey 65536"
    by (simp add: PriorityIndexKey_eq_iff)
  have c2: "PriorityIndexKey (- 1) = PriorityIndexKey 65535"
    by (simp add: PriorityIndexKey_eq_iff)
  show ?thesis using PriorityIndexKey_eq_iff [of p q] PriorityIndexKey_bytes [of p] inj c1 c2
    by blast
qed

theorem PriorityIndexKey_low_16_bits_witness:
  "PriorityIndexKey 65537 = PriorityIndexKey 1 \<and> PriorityIndexKey 258 = [1, 2, 0]
   \<and> PriorityIndexKey 3 \<noteq> PriorityIndexKey 4
   \<and> PriorityIndexKey 0 = PriorityIndexKey 65536
   \<and> PriorityIndexKey (- 1) = PriorityIndexKey 65535"
proof -
  have a: "PriorityIndexKey 65537 = PriorityIndexKey 1"
    using PriorityIndexKey_low_16_bits [of 65537 1] by simp
  have b: "PriorityIndexKey 258 = [1, 2, 0]"
    using PriorityIndexKey_low_16_bits [of 258 258] by simp
  have "(PriorityIndexKey 3 = PriorityIndexKey 4)
      = (sint (3::64 word) mod 2^16 = sint (4::64 word) mod 2^16)"
    using PriorityIndexKey_low_16_bits [of 3 4] by blast
  then have c: "PriorityIndexKey 3 \<noteq> PriorityIndexKey 4" by simp
  have d: "PriorityIndexKey 0 = PriorityIndexKey 65536
      \<and> PriorityIndexKey (- 1) = PriorityIndexKey 65535"
    using PriorityIndexKey_low_16_bits [of 0 0] by blast
  show ?thesis using a b c d by blast
qed

section \<open>Timestamp ranges\<close>

lemma sint_MaxTimestamp: "sint MaxTimestamp = 2 ^ 63 - 1"
  by (simp add: MaxTimestamp_def)

lemma sint_succ_Timestamp:
  fixes t :: Timestamp
  assumes "t \<noteq> MaxTimestamp"
  shows "sint (t + 1) = sint t + 1"
proof -
  have "sint t \<noteq> sint MaxTimestamp" using assms signed_word_eqI by blast
  moreover have "sint t < 2 ^ 63" using sint_lt [of t] by simp
  moreover have "- (2 ^ 63) \<le> sint t" using sint_ge [of t] by simp
  ultimately have "- (2 ^ 63) \<le> sint t + 1" "sint t + 1 < 2 ^ 63"
    by (simp_all add: sint_MaxTimestamp)
  then show ?thesis
    by (simp add: sint_word_ariths signed_take_bit_int_eq_self)
qed

lemma Contains_inclusive:
  "Contains r ts \<longleftrightarrow> sint (Start r) \<le> sint ts \<and> sint ts \<le> sint (End r)"
  by (simp add: Contains_def word_sle_eq)

lemma After_excludes_below_MaxTimestamp:
  "t \<noteq> MaxTimestamp \<Longrightarrow> \<not> Contains (After t) t"
  by (simp add: Contains_inclusive After_def sint_succ_Timestamp)

text \<open>
  Claim C8 says that \<open>After t\<close> never contains \<open>t\<close>. At \<open>t = MaxTimestamp\<close> the
  addition \<^verbatim>\<open>ts + 1\<close> wraps to the least timestamp, so the range returned is the
  range of all timestamps and it contains \<open>MaxTimestamp\<close> itself.
\<close>

theorem After_MaxTimestamp_contains_itself:
  "Contains (After MaxTimestamp) MaxTimestamp
   \<and> sint (Start (After MaxTimestamp)) = - (2 ^ 63)
   \<and> sint MaxTimestamp = 2 ^ 63 - 1"
  by (simp add: Contains_inclusive After_def MaxTimestamp_def)

section \<open>Prefix intervals\<close>

lemma byte_max: "\<not> (x::byte) < 0xFF \<Longrightarrow> x = 0xFF"
proof -
  assume a: "\<not> x < 0xFF"
  have "(0xFF::byte) = - 1" by simp
  then show ?thesis using a word_order.not_eq_extremum by metis
qed

lemma byte_top: "\<not> (0xFF::byte) < y"
proof -
  have "(0xFF::byte) = - 1" by simp
  then show ?thesis by (metis word_order.extremum_strict)
qed

lemma byte_less_inc: "(x::byte) < 0xFF \<Longrightarrow> y < x + 1 \<longleftrightarrow> y \<le> x"
  by (meson Word.less_inc_imp_less_eq interval_class.inc_less_eq_imp_less
    linorder_not_less)

lemma succ_key_snoc:
  "succ_key (ys @ [x]) = (if x < 0xFF then Some (ys @ [x + 1]) else succ_key ys)"
  by (induction ys) (auto split: option.splits)

lemma Prefix_loop_succ_key: "n \<le> length e \<Longrightarrow> Prefix_loop e n = succ_key (take n e)"
  by (induction n) (auto simp: take_Suc_conv_app_nth succ_key_snoc upd_conv_take_nth_drop)

lemma succ_key_all_FF: "succ_key (replicate n 0xFF) = None"
  by (induction n) auto

lemma succ_key_append_Some: "succ_key xs = Some ys \<Longrightarrow> succ_key (a @ xs) = Some (a @ ys)"
  by (induction a) auto

lemma succ_key_shape:
  assumes "b < 0xFF"
  shows "succ_key (a @ b # replicate n 0xFF) = Some (a @ [b + 1])"
proof -
  have "succ_key (b # replicate n 0xFF) = Some [b + 1]"
    using assms by (simp add: succ_key_all_FF)
  then show ?thesis by (rule succ_key_append_Some)
qed

lemma key_in_range_succ_key: "key_in_range p (succ_key p) s \<longleftrightarrow> prefix p s"
proof (induction p arbitrary: s)
  case Nil
  then show ?case by (simp add: key_in_range_def)
next
  case (Cons x xs)
  show ?case
  proof (cases s)
    case Nil
    then show ?thesis by (simp add: key_in_range_def)
  next
    case (Cons y ys)
    show ?thesis
    proof (cases "succ_key xs")
      case (Some e)
      then show ?thesis using Cons.IH [of ys] Cons
        by (auto simp: key_in_range_def)
    next
      case None
      show ?thesis
      proof (cases "x < 0xFF")
        case True
        then show ?thesis using Cons.IH [of ys] Cons None
          by (auto simp: key_in_range_def byte_less_inc)
      next
        case False
        then have "x = 0xFF" by (rule byte_max)
        then show ?thesis using Cons.IH [of ys] Cons None byte_top [of y]
          by (auto simp: key_in_range_def)
      qed
    qed
  qed
qed

lemma Prefix_nonempty:
  "p \<noteq> [] \<Longrightarrow> Prefix p = \<lparr>StartKey = Some p, EndKey = succ_key p\<rparr>"
  by (simp add: Prefix_def Prefix_loop_succ_key)

text \<open>
  Claim C4. For a non-empty \<open>p\<close>, \<open>Prefix p\<close> starts at \<open>p\<close> and its members are
  exactly the keys that have \<open>p\<close> as a prefix. Its end is found from the right: when
  \<open>p\<close> is \<open>a\<close>, a byte \<open>b\<close> below \<open>0xFF\<close> and then only \<open>0xFF\<close> bytes, the end is
  \<open>a\<close> followed by \<open>b + 1\<close>; when every byte is \<open>0xFF\<close> there is no end. The empty
  prefix gives the interval of all keys.
\<close>

theorem Prefix_interval:
  "(p \<noteq> [] \<longrightarrow> StartKey (Prefix p) = Some p \<and> (\<forall>k. in_interval (Prefix p) k \<longleftrightarrow> prefix p k))
   \<and> (b < 0xFF \<longrightarrow> Prefix (a @ b # replicate n 0xFF)
          = \<lparr>StartKey = Some (a @ b # replicate n 0xFF), EndKey = Some (a @ [b + 1])\<rparr>)
   \<and> (0 < n \<longrightarrow> Prefix (replicate n 0xFF)
          = \<lparr>StartKey = Some (replicate n 0xFF), EndKey = None\<rparr>)
   \<and> Prefix [] = All \<and> in_interval All k"
proof -
  have 1: "StartKey (Prefix p) = Some p \<and> (\<forall>k. in_interval (Prefix p) k \<longleftrightarrow> prefix p k)"
    if "p \<noteq> []"
    using that
    by (simp add: Prefix_nonempty in_interval_def start_bound_def key_in_range_succ_key)
  have 2: "Prefix (a @ b # replicate n 0xFF)
      = \<lparr>StartKey = Some (a @ b # replicate n 0xFF), EndKey = Some (a @ [b + 1])\<rparr>"
    if "b < 0xFF"
    using that by (simp add: Prefix_nonempty succ_key_shape)
  have 3: "Prefix (replicate n 0xFF) = \<lparr>StartKey = Some (replicate n 0xFF), EndKey = None\<rparr>"
    if "0 < n"
    using that by (simp add: Prefix_nonempty succ_key_all_FF)
  have 4: "Prefix [] = All" by (simp add: Prefix_def)
  have 5: "in_interval All k"
    by (simp add: in_interval_def All_def start_bound_def key_in_range_def)
  show ?thesis using 1 2 3 4 5 by blast
qed

theorem Prefix_interval_witness:
  "in_interval (Prefix ex_open_key) (ex_open_key @ [7])
   \<and> \<not> in_interval (Prefix ex_open_key) [0x6F, 0x70, 0x65, 0x6E, 0x01]
   \<and> Prefix [1, 2, 0xFF] = \<lparr>StartKey = Some [1, 2, 0xFF], EndKey = Some [1, 3]\<rparr>
   \<and> Prefix [0xFF, 0xFF, 0xFF] = \<lparr>StartKey = Some [0xFF, 0xFF, 0xFF], EndKey = None\<rparr>"
proof -
  have ne: "ex_open_key \<noteq> []" by (simp add: ex_open_key_def)
  have m: "StartKey (Prefix ex_open_key) = Some ex_open_key
      \<and> (\<forall>k. in_interval (Prefix ex_open_key) k \<longleftrightarrow> prefix ex_open_key k)"
    using Prefix_interval [of ex_open_key 0 "[]" 0 "[]", THEN conjunct1] ne by (rule mp)
  have a: "in_interval (Prefix ex_open_key) (ex_open_key @ [7])"
    by (simp add: m)
  have b: "\<not> in_interval (Prefix ex_open_key) [0x6F, 0x70, 0x65, 0x6E, 0x01]"
    by (simp add: m) (simp add: ex_open_key_def)
  have lt: "(2::byte) < 0xFF" by simp
  have "Prefix ([1] @ 2 # replicate 1 0xFF)
      = \<lparr>StartKey = Some ([1] @ 2 # replicate 1 0xFF), EndKey = Some ([1] @ [2 + 1])\<rparr>"
    using Prefix_interval [of "[]" 2 "[1]" 1 "[]", THEN conjunct2, THEN conjunct1] lt
    by (rule mp)
  then have c: "Prefix [1, 2, 0xFF] = \<lparr>StartKey = Some [1, 2, 0xFF], EndKey = Some [1, 3]\<rparr>"
    by simp
  have pos: "0 < (3::nat)" by simp
  have "Prefix (replicate 3 0xFF) = \<lparr>StartKey = Some (replicate 3 0xFF), EndKey = None\<rparr>"
    using Prefix_interval [of "[]" 0 "[]" 3 "[]", THEN conjunct2, THEN conjunct2, THEN conjunct1] pos
    by (rule mp)
  then have d: "Prefix [0xFF, 0xFF, 0xFF] = \<lparr>StartKey = Some [0xFF, 0xFF, 0xFF], EndKey = None\<rparr>"
    by (simp add: numeral_3_eq_3)
  show ?thesis using a b c d by blast
qed

section \<open>The atomic writer\<close>

lemma insert_documents_Inr:
  "insert_documents rows docs = Inr rows' \<Longrightarrow>
     rows' = rows @ docs \<and> distinct (map doc_key docs)
     \<and> set (map doc_key docs) \<inter> set (map doc_key rows) = {}"
proof (induction docs arbitrary: rows)
  case Nil
  then show ?case by simp
next
  case (Cons doc docs)
  from Cons.prems have nd: "doc_key doc \<notin> set (map doc_key rows)"
    by (auto simp: InsertDocumentQuery_def split: if_splits)
  with Cons.prems have "insert_documents (rows @ [doc]) docs = Inr rows'"
    by (simp add: InsertDocumentQuery_def)
  from Cons.IH [OF this] nd show ?case by auto
qed

lemma insert_documents_Inl:
  "insert_documents rows docs = Inl e \<Longrightarrow> \<exists>m. e = Errorf m ConstraintViolation"
  by (induction docs arbitrary: rows)
     (auto simp: InsertDocumentQuery_def split: if_splits)

lemma insert_indexes_Inr:
  "insert_indexes rows idxs = Inr rows' \<Longrightarrow>
     rows' = rows @ idxs \<and> distinct (map idx_key idxs)
     \<and> set (map idx_key idxs) \<inter> set (map idx_key rows) = {}"
proof (induction idxs arbitrary: rows)
  case Nil
  then show ?case by simp
next
  case (Cons idx idxs)
  from Cons.prems have nd: "idx_key idx \<notin> set (map idx_key rows)"
    by (auto simp: InsertIndexQuery_def split: if_splits)
  with Cons.prems have "insert_indexes (rows @ [idx]) idxs = Inr rows'"
    by (simp add: InsertIndexQuery_def)
  from Cons.IH [OF this] nd show ?case by auto
qed

lemma insert_indexes_Inl:
  "insert_indexes rows idxs = Inl e \<Longrightarrow> \<exists>m. e = Errorf m ConstraintViolation"
  by (induction idxs arbitrary: rows)
     (auto simp: InsertIndexQuery_def split: if_splits)

lemma Write_error_unchanged:
  "fst (Write eng s docs idxs) \<noteq> None \<Longrightarrow> snd (Write eng s docs idxs) = s"
  by (auto simp: Write_def split: sum.splits if_splits)

lemma Write_success:
  assumes "fst (Write eng s docs idxs) = None"
  shows "snd (Write eng s docs idxs)
           = s\<lparr>documents := documents s @ docs, indexes := indexes s @ idxs\<rparr>"
    and "set (map doc_key docs) \<inter> set (map doc_key (documents s)) = {}"
    and "distinct (map doc_key docs)"
    and "set (map idx_key idxs) \<inter> set (map idx_key (indexes s)) = {}"
    and "distinct (map idx_key idxs)"
proof -
  from assms obtain drows where d: "insert_documents (documents s) docs = Inr drows"
    by (auto simp: Write_def split: sum.splits if_splits)
  note D = insert_documents_Inr [OF d]
  show "set (map doc_key docs) \<inter> set (map doc_key (documents s)) = {}"
    and "distinct (map doc_key docs)" using D by simp_all
  show "snd (Write eng s docs idxs)
           = s\<lparr>documents := documents s @ docs, indexes := indexes s @ idxs\<rparr>"
  proof (cases idxs)
    case Nil
    then show ?thesis using assms d D
      by (auto simp: Write_def split: sum.splits if_splits)
  next
    case (Cons i rest)
    with assms d obtain irows where i: "insert_indexes (indexes s) idxs = Inr irows"
      by (auto simp: Write_def split: sum.splits if_splits)
    then show ?thesis using assms d D insert_indexes_Inr [OF i] Cons
      by (auto simp: Write_def split: sum.splits if_splits)
  qed
  show "set (map idx_key idxs) \<inter> set (map idx_key (indexes s)) = {}"
    and "distinct (map idx_key idxs)"
  proof -
    have "set (map idx_key idxs) \<inter> set (map idx_key (indexes s)) = {}
        \<and> distinct (map idx_key idxs)"
    proof (cases idxs)
      case Nil
      then show ?thesis by simp
    next
      case (Cons i rest)
      with assms d obtain irows where i: "insert_indexes (indexes s) idxs = Inr irows"
        by (auto simp: Write_def split: sum.splits if_splits)
      show ?thesis using insert_indexes_Inr [OF i] by simp
    qed
    then show "set (map idx_key idxs) \<inter> set (map idx_key (indexes s)) = {}"
      and "distinct (map idx_key idxs)" by simp_all
  qed
qed

lemma Write_healthy_error:
  "fst (Write healthy s docs idxs) = Some e \<Longrightarrow> \<exists>m. e = Errorf m ConstraintViolation"
  by (auto simp: Write_def healthy_def split: sum.splits if_splits
           dest: insert_documents_Inl insert_indexes_Inl)

text \<open>
  Claim C5. When a document of the batch has the primary key of a stored document, or
  an index entry of the batch the primary key of a stored index entry, \<^verbatim>\<open>Write\<close>
  returns an error and the database is the one before the call, so no row of the batch
  is visible to a later read; with a working engine the error wraps the constraint
  violation of the failing INSERT.
\<close>

theorem Write_duplicate_rolls_back:
  assumes "(\<exists>d\<in>set docs. doc_key d \<in> doc_key ` set (documents s))
         \<or> (\<exists>e\<in>set idxs. idx_key e \<in> idx_key ` set (indexes s))"
  shows "fst (Write eng s docs idxs) \<noteq> None
       \<and> snd (Write eng s docs idxs) = s
       \<and> (\<exists>msg. Write healthy s docs idxs = (Some (Errorf msg ConstraintViolation), s))"
proof -
  have fails: "fst (Write en s docs idxs) \<noteq> None" for en
  proof
    assume ok: "fst (Write en s docs idxs) = None"
    from Write_success(2) [OF ok] Write_success(4) [OF ok] assms
    show False by auto
  qed
  then have unchanged: "snd (Write en s docs idxs) = s" for en
    by (rule Write_error_unchanged)
  from fails [of healthy] obtain e where e: "fst (Write healthy s docs idxs) = Some e"
    by auto
  from Write_healthy_error [OF e] obtain m where "e = Errorf m ConstraintViolation" ..
  with e unchanged [of healthy]
  have "Write healthy s docs idxs = (Some (Errorf m ConstraintViolation), s)"
    by (simp add: prod_eq_iff)
  with fails unchanged show ?thesis by blast
qed


theorem Write_duplicate_rolls_back_witness:
  "fst (Write healthy ex_db1 [ex_v300, ex_dup100] [ex_idx300])
     = Some (Errorf ''inserting document bd-1'' ConstraintViolation)
   \<and> snd (Write healthy ex_db1 [ex_v300, ex_dup100] [ex_idx300]) = ex_db1"
proof -
  have dup: "(\<exists>d\<in>set [ex_v300, ex_dup100]. doc_key d \<in> doc_key ` set (documents ex_db1))
         \<or> (\<exists>e\<in>set [ex_idx300]. idx_key e \<in> idx_key ` set (indexes ex_db1))"
    by (simp add: ex_db1_def ex_db0_def ex_v100_def ex_dup100_def doc_key_def)
  have "snd (Write healthy ex_db1 [ex_v300, ex_dup100] [ex_idx300]) = ex_db1"
    using Write_duplicate_rolls_back [OF dup, of healthy] by (rule conjunct2 [THEN conjunct1])
  moreover have "fst (Write healthy ex_db1 [ex_v300, ex_dup100] [ex_idx300])
     = Some (Errorf ''inserting document bd-1'' ConstraintViolation)"
    by (simp add: Write_def healthy_def InsertDocumentQuery_def doc_key_def
          ex_db1_def ex_db0_def ex_v100_def ex_dup100_def ex_v300_def)
  ultimately show ?thesis by simp
qed

text \<open>
  Claim C9. \<^verbatim>\<open>Write\<close> with no documents and no index entries returns no error on
  a working engine, and whatever the engine does the database after the call is the
  database before it, so every read gives the result it gave before.
\<close>

theorem Write_empty_batch_noop:
  "Write healthy s [] [] = (None, s)
   \<and> snd (Write eng s [] []) = s
   \<and> (fst (Write eng s [] []) = None \<longleftrightarrow> begin_ok eng \<and> prepare_doc_ok eng \<and> commit_ok eng)
   \<and> GetDocument eng' (snd (Write eng s [] [])) tableID docID atTS
       = GetDocument eng' s tableID docID atTS
   \<and> LoadDocuments eng' (snd (Write eng s [] [])) tableID tsRange ord
       = LoadDocuments eng' s tableID tsRange ord
   \<and> IndexScan eng' now (snd (Write eng s [] [])) indexID iv readTS ord limit
       = IndexScan eng' now s indexID iv readTS ord limit
   \<and> IndexGet eng' now (snd (Write eng s [] [])) indexID k readTS
       = IndexGet eng' now s indexID k readTS
   \<and> GetGlobal eng' (snd (Write eng s [] [])) g = GetGlobal eng' s g"
proof -
  have 1: "Write healthy s [] [] = (None, s)"
    by (simp add: Write_def healthy_def)
  have 2: "snd (Write eng s [] []) = s"
    by (simp add: Write_def)
  have 3: "fst (Write eng s [] []) = None \<longleftrightarrow> begin_ok eng \<and> prepare_doc_ok eng \<and> commit_ok eng"
    by (simp add: Write_def)
  show ?thesis unfolding 2 using 1 3 by simp
qed

section \<open>Point reads\<close>

lemma latest_row_None: "order_by_ts_desc_limit_1 xs = None \<longleftrightarrow> xs = []"
  by (induction xs) (auto split: option.splits)

lemma latest_row_Some:
  "order_by_ts_desc_limit_1 xs = Some m \<Longrightarrow> m \<in> set xs \<and> (\<forall>r\<in>set xs. TS r \<le>s TS m)"
proof (induction xs arbitrary: m)
  case Nil
  then show ?case by simp
next
  case (Cons x xs)
  show ?case
  proof (cases "order_by_ts_desc_limit_1 xs")
    case None
    then show ?thesis using Cons.prems by (simp add: latest_row_None)
  next
    case (Some m')
    note IH = Cons.IH [OF Some]
    show ?thesis
    proof (cases "TS x <s TS m'")
      case True
      then show ?thesis using Cons.prems Some IH by auto
    next
      case False
      then have "TS m' \<le>s TS x" by simp
      then show ?thesis using Cons.prems Some IH False
        by (auto intro: signed.order_trans)
    qed
  qed
qed

lemma latest_row_unique:
  assumes "v \<in> set xs"
    and "\<forall>r\<in>set xs. TS r \<le>s TS v"
    and "\<forall>r\<in>set xs. TS r = TS v \<longrightarrow> r = v"
  shows "order_by_ts_desc_limit_1 xs = Some v"
proof -
  from assms(1) have "xs \<noteq> []" by auto
  then obtain m where m: "order_by_ts_desc_limit_1 xs = Some m"
    using latest_row_None [of xs] by (cases "order_by_ts_desc_limit_1 xs") auto
  from latest_row_Some [OF m] have mem: "m \<in> set xs" and ge: "TS v \<le>s TS m"
    using assms(1) by auto
  have le: "TS m \<le>s TS v" using assms(2) mem by auto
  from le ge have "TS m = TS v" by (rule signed.order.antisym)
  with assms(3) mem have "m = v" by auto
  with m show ?thesis by simp
qed

lemma doc_key_unique:
  assumes "distinct (map doc_key xs)" "a \<in> set xs" "b \<in> set xs" "doc_key a = doc_key b"
  shows "a = b"
  using assms by (meson distinct_map inj_on_def)

lemma Write_then_latest:
  assumes ok: "fst (Write eng s docs idxs) = None" and v: "v \<in> set docs"
  shows "LatestDocumentAtTSQuery (snd (Write eng s docs idxs)) (TableID v) (ID v) (TS v) = Some v"
proof -
  note W = Write_success [OF ok]
  let ?xs = "filter (\<lambda>r. TableID r = TableID v \<and> ID r = ID v \<and> TS r \<le>s TS v)
               (documents s @ docs)"
  have 1: "v \<in> set ?xs" using v by simp
  have 2: "\<forall>r\<in>set ?xs. TS r \<le>s TS v" by auto
  have 3: "\<forall>r\<in>set ?xs. TS r = TS v \<longrightarrow> r = v"
  proof (intro ballI impI)
    fix r assume r: "r \<in> set ?xs" and "TS r = TS v"
    then have k: "doc_key r = doc_key v" by (auto simp add: doc_key_def)
    have "doc_key v \<in> set (map doc_key docs)" using v by simp
    with W(2) have "doc_key v \<notin> set (map doc_key (documents s))" by blast
    with k have "r \<notin> set (documents s)" by (metis image_eqI set_map)
    with r have rd: "r \<in> set docs" by auto
    from W(3) rd v k show "r = v" by (rule doc_key_unique)
  qed
  have "order_by_ts_desc_limit_1 ?xs = Some v"
    using 1 2 3 by (rule latest_row_unique)
  then show ?thesis by (simp add: LatestDocumentAtTSQuery_def W(1))
qed






text \<open>
  For a version that keeps the invariant of the data model (the flag is set exactly when
  the value is absent) it makes no difference whether a tombstone is told by the flag or
  by \<open>IsDeleted\<close>.
\<close>

lemma Write_then_GetDocument_invariant:
  assumes "fst (Write eng s docs idxs) = None" "v \<in> set docs"
    "Deleted v \<longleftrightarrow> Value v = None" "query_ok rd"
  shows "GetDocument rd (snd (Write eng s docs idxs)) (TableID v) (ID v) (Some (TS v))
           = (if IsDeleted v then Inr None else Inr (Some v))"
  using assms(3,4) Write_then_latest [OF assms(1,2)]
  by (simp add: GetDocument_def IsDeleted_def)




section \<open>Reads of a deleted document\<close>

lemmas ex_defs = ex_db0_def ex_db1_def ex_db2_def ex_db3_def ex_v100_def ex_tomb200_def
  ex_idx100_def ex_null400_def ex_open_key_def

lemma Prefix_ex_open_key:
  "Prefix ex_open_key
     = \<lparr>StartKey = Some ex_open_key, EndKey = Some [0x6F, 0x70, 0x65, 0x6E, 0x01]\<rparr>"
  by (simp add: Prefix_def ex_open_key_def)

text \<open>
  On the read with a timestamp the code agrees with the specification whenever the
  stored versions keep the invariant that the flag is set exactly when the value is
  absent.
\<close>

lemma GetDocument_at_ts_agrees:
  assumes "query_ok eng" and "\<forall>r\<in>set (documents s). Deleted r \<longleftrightarrow> Value r = None"
  shows "GetDocument eng s tableID docID (Some t) = Inr (spec_get_document s tableID docID t)"
proof (cases "LatestDocumentAtTSQuery s tableID docID t")
  case None
  then show ?thesis using assms(1) by (simp add: GetDocument_def spec_get_document_def)
next
  case (Some r)
  then have "r \<in> set (documents s)"
    by (auto simp: LatestDocumentAtTSQuery_def dest: latest_row_Some)
  with assms(2) have "IsDeleted r \<longleftrightarrow> Deleted r" by (auto simp: IsDeleted_def)
  then show ?thesis using assms(1) Some by (simp add: GetDocument_def spec_get_document_def)
qed

text \<open>
  A version stored without a value and without the flag is returned by the read,
  where the specification's reader treats the missing value as a deletion.
\<close>

lemma GetDocument_returns_version_without_value:
  "GetDocument healthy ex_db3 ''issues'' ''bd-3'' (Some 400) = Inr (Some ex_null400)
   \<and> spec_get_document ex_db3 ''issues'' ''bd-3'' 400 = None"
  by (simp add: GetDocument_def spec_get_document_def LatestDocumentAtTSQuery_def
        IsDeleted_def healthy_def word_sle_eq word_sless_alt ex_defs)

text \<open>
  Claim C1 says that a document whose latest visible version is a tombstone is
  reported as not found. The issue bd-1 is created at 100 and deleted at 200, by the two
  writes that \<^verbatim>\<open>CreateIssue\<close> and \<^verbatim>\<open>DeleteIssue\<close> make. The read without a
  timestamp (\<^verbatim>\<open>LatestDocumentQuery\<close> filters \<^verbatim>\<open>deleted = 0\<close> before it takes the
  latest row) returns the version of 100; the specification's read at any later time,
  here 300, returns nothing, and so does the code's read with the timestamp 300.
\<close>

theorem GetDocument_returns_deleted_document:
  "Write healthy ex_db0 [ex_v100] [ex_idx100] = (None, ex_db1)
   \<and> Write healthy ex_db1 [ex_tomb200] [] = (None, ex_db2)
   \<and> GetDocument healthy ex_db2 ''issues'' ''bd-1'' None = Inr (Some ex_v100)
   \<and> spec_get_document ex_db2 ''issues'' ''bd-1'' 300 = None
   \<and> GetDocument healthy ex_db2 ''issues'' ''bd-1'' (Some 300) = Inr None"
proof -
  have 1: "Write healthy ex_db0 [ex_v100] [ex_idx100] = (None, ex_db1)"
    by (simp add: Write_def healthy_def InsertDocumentQuery_def InsertIndexQuery_def
          ex_db0_def ex_db1_def)
  have 2: "Write healthy ex_db1 [ex_tomb200] [] = (None, ex_db2)"
    by (simp add: Write_def healthy_def InsertDocumentQuery_def doc_key_def ex_defs)
  have 3: "GetDocument healthy ex_db2 ''issues'' ''bd-1'' None = Inr (Some ex_v100)"
    by (simp add: GetDocument_def LatestDocumentQuery_def healthy_def ex_defs)
  have 4: "spec_get_document ex_db2 ''issues'' ''bd-1'' 300 = None"
    by (simp add: spec_get_document_def LatestDocumentAtTSQuery_def IsDeleted_def
          word_sle_eq word_sless_alt ex_defs)
  have 5: "GetDocument healthy ex_db2 ''issues'' ''bd-1'' (Some 300) = Inr None"
    by (simp add: GetDocument_def LatestDocumentAtTSQuery_def healthy_def
          word_sle_eq word_sless_alt ex_defs)
  show ?thesis using 1 2 3 4 5 by simp
qed

section \<open>Index scans\<close>

lemmas scan_defs = IndexScanQuery_def IndexScanRows_def latest_index_def row_number_def
  join_documents_def max_live_ts_def LIMIT_def Order_String_def Asc_def Desc_def
  start_bound_def key_in_range_def healthy_def word_sle_eq word_sless_alt

text \<open>
  Claim C2 says that an index entry is dropped when the latest version of its document
  at the read timestamp is a tombstone. In the store where bd-1 was deleted at 200 the
  latest version at 250 is the tombstone, and the scan and the point lookup at 250 both
  return the version of 100: the subquery takes the greatest timestamp among the rows
  with \<^verbatim>\<open>deleted = 0\<close> only.
\<close>

theorem IndexScan_returns_deleted_document:
  "LatestDocumentAtTSQuery ex_db2 ''issues'' ''bd-1'' 250 = Some ex_tomb200
   \<and> spec_get_document ex_db2 ''issues'' ''bd-1'' 250 = None
   \<and> IndexScan healthy 300 ex_db2 ''issues_by_status'' (Prefix ex_open_key) 250 Asc 10
       = Inr [\<lparr>res_Key = None, Document = Some ex_v100\<rparr>]
   \<and> IndexGet healthy 300 ex_db2 ''issues_by_status'' ex_open_key 250 = Inr (Some ex_v100)"
proof -
  have 1: "LatestDocumentAtTSQuery ex_db2 ''issues'' ''bd-1'' 250 = Some ex_tomb200"
    by (simp add: LatestDocumentAtTSQuery_def word_sle_eq word_sless_alt ex_defs)
  have 2: "spec_get_document ex_db2 ''issues'' ''bd-1'' 250 = None"
    by (simp add: spec_get_document_def 1) (simp add: IsDeleted_def ex_tomb200_def)
  have 3: "IndexScan healthy 300 ex_db2 ''issues_by_status'' (Prefix ex_open_key) 250 Asc 10
       = Inr [\<lparr>res_Key = None, Document = Some ex_v100\<rparr>]"
    unfolding IndexScan_def Prefix_ex_open_key by (simp add: scan_defs ex_defs)
  have 4: "IndexGet healthy 300 ex_db2 ''issues_by_status'' ex_open_key 250 = Inr (Some ex_v100)"
    by (simp add: IndexGet_def IndexGetQuery_def join_documents_def max_live_ts_def
          healthy_def word_sle_eq word_sless_alt ex_defs)
  show ?thesis using 1 2 3 4 by simp
qed

lemma IndexScan_results_carry_no_key:
  "IndexScan eng now s indexID iv readTS ord limit = Inr rs \<Longrightarrow> r \<in> set rs \<Longrightarrow> res_Key r = None"
  by (auto simp: IndexScan_def Let_def split: if_splits)

lemma sorted_LIMIT:
  assumes "sorted (map f xs)"
  shows "sorted (map f (LIMIT n xs))"
proof -
  have "sorted (take k (map f xs))" for k using assms by (rule sorted_wrt_take)
  then show ?thesis using assms by (simp add: LIMIT_def take_map)
qed

lemma length_LIMIT: "0 \<le> n \<Longrightarrow> length (LIMIT n xs) \<le> nat n"
  by (simp add: LIMIT_def)

lemma IndexScanRows_ascending:
  "dir \<noteq> ''DESC'' \<Longrightarrow> sorted (map fst (IndexScanRows s dir i a b t n))"
  by (simp add: IndexScanRows_def Let_def sorted_LIMIT)

lemma rev_map_take_rev: "rev (map f (take k (rev ys))) = drop (length ys - k) (map f ys)"
  by (simp add: rev_map rev_take drop_map)

lemma IndexScanRows_descending:
  "sorted (rev (map fst (IndexScanRows s ''DESC'' i a b t n)))"
proof -
  have "sorted (rev (map fst (LIMIT n (rev (sort_key fst xs)))))"
    for xs :: "(byte list \<times> DocumentLogEntry) list"
  proof -
    have s: "sorted (map fst (sort_key fst xs))" by simp
    have d: "sorted (drop k (map fst (sort_key fst xs)))" for k
      using s by (rule sorted_wrt_drop)
    show ?thesis
    proof (cases "n < 0")
      case True
      then show ?thesis using s by (simp add: LIMIT_def rev_map)
    next
      case False
      then show ?thesis using d by (simp add: LIMIT_def rev_map_take_rev)
    qed
  qed
  then show ?thesis by (simp add: IndexScanRows_def Let_def)
qed

lemma IndexScan_at_most_limit:
  "0 \<le> limit \<Longrightarrow> IndexScan eng now s indexID iv readTS ord limit = Inr rs
     \<Longrightarrow> length rs \<le> nat limit"
  by (auto simp: IndexScan_def IndexScanQuery_def IndexScanRows_def Let_def length_LIMIT
           split: if_splits)

text \<open>
  Claim C6 says that every result of the scan carries the key that matched. The scan at
  150 of the store that holds the live issue bd-1 under the key \<^verbatim>\<open>"open\x00"\<close> returns
  one result, with the document and with a nil \<^verbatim>\<open>Key\<close>: the query does not select
  the key and \<^verbatim>\<open>IndexScan\<close> builds \<^verbatim>\<open>IndexResult{Document: &doc}\<close>.
\<close>

theorem IndexScan_result_without_key:
  "Key ex_idx100 = ex_open_key
   \<and> in_interval (Prefix ex_open_key) (Key ex_idx100)
   \<and> IndexScan healthy 300 ex_db1 ''issues_by_status'' (Prefix ex_open_key) 150 Asc 10
       = Inr [\<lparr>res_Key = None, Document = Some ex_v100\<rparr>]"
proof -
  have 1: "Key ex_idx100 = ex_open_key" by (simp add: ex_idx100_def)
  have 2: "in_interval (Prefix ex_open_key) (Key ex_idx100)"
    unfolding Prefix_ex_open_key 1
    by (simp add: in_interval_def start_bound_def key_in_range_def ex_open_key_def)
  have 3: "IndexScan healthy 300 ex_db1 ''issues_by_status'' (Prefix ex_open_key) 150 Asc 10
       = Inr [\<lparr>res_Key = None, Document = Some ex_v100\<rparr>]"
    unfolding IndexScan_def Prefix_ex_open_key by (simp add: scan_defs ex_defs)
  show ?thesis using 1 2 3 by simp
qed

section \<open>Opening an existing store\<close>

text \<open>
  Claim C3 says that opening an existing store whose stored \<^verbatim>\<open>schema_version\<close>
  differs from the expected one fails. The store below holds the version 2, and the
  open returns it as a usable store.
\<close>

theorem NewSQLitePersistence_opens_other_version:
  "GetGlobalQuery (persistence_globals ex_db_v2) GlobalSchemaVersion = Some ''2''
   \<and> SchemaVersion = 1
   \<and> NewSQLitePersistence healthy (Some ex_db_v2) ''beads.db''
       = Inr \<lparr>db = ex_db_v2, dbPath = ''beads.db'', fresh = False\<rparr>"
  by (simp add: NewSQLitePersistence_def healthy_def GetGlobalQuery_def GlobalSchemaVersion_def
        SchemaVersion_def ex_db_v2_def)

text \<open>
  Claim C3, amended. Opening a store whose backing file exists does not read
  \<^verbatim>\<open>schema_version\<close>: when the engine opens the file the store is returned as it is,
  not fresh, with no row written, whatever version it holds. A fresh store is stamped
  with the version 1.
\<close>

theorem NewSQLitePersistence_existing_store:
  "NewSQLitePersistence eng (Some d) path
     = (if open_ok eng then Inr \<lparr>db = d, dbPath = path, fresh = False\<rparr>
        else Inl (Errorf ''opening database'' EngineFault))
   \<and> NewSQLitePersistence healthy None path
     = Inr \<lparr>db = \<lparr>documents = [], indexes = [],
                   persistence_globals = [(GlobalSchemaVersion, ''1'')]\<rparr>,
             dbPath = path, fresh = True\<rparr>"
  by (simp add: NewSQLitePersistence_def healthy_def Schema_def SetGlobalQuery_def)

theorem NewSQLitePersistence_existing_store_witness:
  "NewSQLitePersistence healthy (Some ex_db1) ''beads.db''
     = Inr \<lparr>db = ex_db1, dbPath = ''beads.db'', fresh = False\<rparr>"
  using NewSQLitePersistence_existing_store [of healthy ex_db1 "''beads.db''", THEN conjunct1]
  by (simp add: healthy_def)


section \<open>The primary keys of a store\<close>

text \<open>
  The stores that \<^verbatim>\<open>Write\<close> builds from a fresh one have distinct primary keys
  in both tables.
\<close>

lemma Schema_primary_keys:
  "distinct (map doc_key (documents Schema)) \<and> distinct (map idx_key (indexes Schema))"
  by (simp add: Schema_def)

lemma Write_preserves_primary_keys:
  assumes "distinct (map doc_key (documents s))" "distinct (map idx_key (indexes s))"
  shows "distinct (map doc_key (documents (snd (Write eng s docs idxs))))
       \<and> distinct (map idx_key (indexes (snd (Write eng s docs idxs))))"
proof (cases "fst (Write eng s docs idxs)")
  case None
  note W = Write_success [OF None]
  have "distinct (map doc_key (documents s @ docs))"
    using assms(1) W(2) W(3) by (simp add: Int_commute)
  moreover have "distinct (map idx_key (indexes s @ idxs))"
    using assms(2) W(4) W(5) by (simp add: Int_commute)
  ultimately show ?thesis by (simp add: W(1))
next
  case (Some e)
  then have "snd (Write eng s docs idxs) = s" by (simp add: Write_error_unchanged)
  then show ?thesis using assms by simp
qed

end
